theory Spec2Isabelle
  imports Complex_Main
begin

section \<open>EMG recorder (azmuth.py): the model\<close>

text \<open>
  Python floats are modelled by the real numbers (exact arithmetic: no rounding, no
  infinities), Python's unbounded integers by \<open>int\<close>, a \<open>str\<close> by a list of characters
  with code points below 256. An exception is a value of \<open>py_error\<close>; a computation that
  may raise returns \<open>py_error + 'a\<close>, with \<open>Inl\<close> for the exception.
\<close>

datatype py_error = ZeroDivisionError | OverflowError | ValueError | IndexError
  | SerialException | RenderError | OSError

subsection \<open>Numeric operations of the interpreter\<close>

text \<open>
  \<open>a / b\<close> on two Python integers: true division. It raises ZeroDivisionError on a zero
  divisor and OverflowError when the quotient is too large for a double, that is from
  \<open>2^1024 - 2^970\<close> on, where rounding to nearest leaves the range of finite doubles.
\<close>

definition float_overflow :: real where
  "float_overflow = 2 ^ 1024 - 2 ^ 970"

definition py_truediv :: "int \<Rightarrow> int \<Rightarrow> py_error + real" where
  "py_truediv a b =
     (if b = 0 then Inl ZeroDivisionError
      else if \<bar>real_of_int a / real_of_int b\<bar> \<ge> float_overflow then Inl OverflowError
      else Inr (real_of_int a / real_of_int b))"

text \<open>\<open>x // y\<close> on floats: the floor of the quotient, as a float; raises on \<open>y = 0\<close>.\<close>

definition py_floordiv :: "real \<Rightarrow> real \<Rightarrow> py_error + real" where
  "py_floordiv x y = (if y = 0 then Inl ZeroDivisionError else Inr (of_int \<lfloor>x / y\<rfloor>))"

text \<open>\<open>int(x)\<close> on a float: truncation toward zero.\<close>

definition py_int_of_float :: "real \<Rightarrow> int" where
  "py_int_of_float x = (if 0 \<le> x then \<lfloor>x\<rfloor> else \<lceil>x\<rceil>)"

subsection \<open>Strings\<close>

text \<open>\<open>\d\<close> and \<open>str.isspace\<close> on code points below 256.\<close>

definition is_digit :: "char \<Rightarrow> bool" where
  "is_digit c = (let n = (of_char c :: nat) in 48 \<le> n \<and> n \<le> 57)"

definition digit_val :: "char \<Rightarrow> nat" where
  "digit_val c = of_char c - 48"

definition is_space :: "char \<Rightarrow> bool" where
  "is_space c = (let n = (of_char c :: nat)
     in (9 \<le> n \<and> n \<le> 13) \<or> (28 \<le> n \<and> n \<le> 32) \<or> n = 133 \<or> n = 160)"

text \<open>\<open>s.strip()\<close>: leading and trailing whitespace removed.\<close>

definition strip :: "string \<Rightarrow> string" where
  "strip s = rev (dropWhile is_space (rev (dropWhile is_space s)))"

text \<open>
  \<open>re.findall(r"\d+", line)\<close>: scanning from the left, each match is the longest run of
  digits at the current position, and the scan resumes after it.
\<close>

function findall_digits :: "string \<Rightarrow> string list" where
  "findall_digits [] = []"
| "findall_digits (c # cs) =
     (if is_digit c
      then takeWhile is_digit (c # cs) # findall_digits (dropWhile is_digit cs)
      else findall_digits cs)"
  by pat_completeness auto
termination
  by (relation "measure length") (auto simp: length_dropWhile_le less_Suc_eq_le)

text \<open>
  \<open>int(s)\<close> on a string, base 10: surrounding whitespace is stripped, one sign is
  allowed, then digits, single underscores allowed between digits. Anything else raises
  ValueError. So does a literal of more than \<open>int_max_str_digits\<close> digits: CPython
  (3.11 and the patched releases of 3.7 to 3.10) limits the conversion, by default to
  4300 digits (\<open>sys.int_info.default_max_str_digits\<close>); a limit of 0 switches the check
  off.
\<close>

definition int_max_str_digits :: nat where
  "int_max_str_digits = 4300"

fun digits_body :: "bool \<Rightarrow> nat \<Rightarrow> string \<Rightarrow> nat option" where
  "digits_body prev acc [] = (if prev then Some acc else None)"
| "digits_body prev acc (c # cs) =
     (if is_digit c then digits_body True (acc * 10 + digit_val c) cs
      else if c = CHR ''_'' \<and> prev then digits_body False acc cs
      else None)"

definition unsigned_int :: "string \<Rightarrow> py_error + int" where
  "unsigned_int body =
     (case digits_body False 0 body of
        None \<Rightarrow> Inl ValueError
      | Some n \<Rightarrow>
          (if 0 < int_max_str_digits \<and> int_max_str_digits < length (filter is_digit body)
           then Inl ValueError
           else Inr (int n)))"

definition py_int_str :: "string \<Rightarrow> py_error + int" where
  "py_int_str s =
     (case strip s of
        [] \<Rightarrow> Inl ValueError
      | c # cs \<Rightarrow>
          (if c = CHR ''-'' then map_sum id uminus (unsigned_int cs)
           else if c = CHR ''+'' then unsigned_int cs
           else unsigned_int (c # cs)))"

text \<open>\<open>xs[i]\<close> for a non-negative index.\<close>

definition py_index :: "'a list \<Rightarrow> nat \<Rightarrow> py_error + 'a" where
  "py_index xs i = (if i < length xs then Inr (xs ! i) else Inl IndexError)"

text \<open>The value of a run of decimal digits.\<close>

definition decimal :: "string \<Rightarrow> nat" where
  "decimal s = foldl (\<lambda>acc c. acc * 10 + digit_val c) 0 s"

subsection \<open>parse_dual_channel\<close>

text \<open>
  \<^verbatim>\<open>
  def parse_dual_channel(line):
      nums = re.findall(r"\d+", line)
      if len(nums) >= 2:
          try:
              return int(nums[0]), int(nums[1])
          except ValueError:
              return None, None
      return None, None
  \<close>
  The result is the pair the function returns; only ValueError is caught.
\<close>

definition to_int_caught :: "string \<Rightarrow> (int \<Rightarrow> py_error + (int option \<times> int option))
    \<Rightarrow> py_error + (int option \<times> int option)" where
  "to_int_caught s k =
     (case py_int_str s of
        Inr x \<Rightarrow> k x
      | Inl e \<Rightarrow> (if e = ValueError then Inr (None, None) else Inl e))"

definition parse_dual_channel :: "string \<Rightarrow> py_error + (int option \<times> int option)" where
  "parse_dual_channel line =
     (let nums = findall_digits line in
      if length nums \<ge> 2 then
        (case py_index nums 0 of
           Inl e \<Rightarrow> Inl e
         | Inr s0 \<Rightarrow>
             to_int_caught s0 (\<lambda>x.
               (case py_index nums 1 of
                  Inl e \<Rightarrow> Inl e
                | Inr s1 \<Rightarrow> to_int_caught s1 (\<lambda>y. Inr (Some x, Some y)))))
      else Inr (None, None))"

subsection \<open>Configuration\<close>

text \<open>
  The module constants \<open>DURATION_PER_REP\<close>, \<open>REPETITIONS\<close>, \<open>PLOT_UPDATE_INTERVAL\<close>
  and the default arguments \<open>vref\<close>, \<open>resolution\<close> of \<open>adc_to_volt\<close>, gathered in
  one record so that a session can be stated for any values of them.
\<close>

record config =
  duration_per_rep :: real
  repetitions :: int
  plot_update_interval :: real
  vref :: real
  resolution :: int

definition total_duration :: "config \<Rightarrow> real" where
  "total_duration cfg = duration_per_rep cfg * of_int (repetitions cfg)"

definition source_config :: config where
  "source_config = \<lparr>duration_per_rep = 3, repetitions = 15, plot_update_interval = 5 / 100,
     vref = 33 / 10, resolution = 4095\<rparr>"

definition SAVE_DIR :: string where
  "SAVE_DIR = ''data_raw''"

definition GRAPH_DIR :: string where
  "GRAPH_DIR = ''graphs''"

definition GESTURES :: "(string \<times> string) list" where
  "GESTURES =
     [(''rest'', ''Neutral / no message''),
      (''fist'', ''Yes / OK''),
      (''open'', ''No / Stop''),
      (''wrist_up'', ''Hello / Start speaking''),
      (''wrist_down'', ''Goodbye / End speaking''),
      (''strong_fist'', ''Urgent / Need help'')]"

subsection \<open>adc_to_volt\<close>

text \<open>
  \<^verbatim>\<open>
  def adc_to_volt(adc_value, vref=3.3, resolution=4095):
      try:
          return (adc_value / resolution) * vref
      except Exception:
          return 0.0
  \<close>
\<close>

definition adc_to_volt :: "int \<Rightarrow> real \<Rightarrow> int \<Rightarrow> real" where
  "adc_to_volt adc_value v res =
     (case py_truediv adc_value res of
        Inr q \<Rightarrow> q * v
      | Inl e \<Rightarrow> 0)"

subsection \<open>Repetition index (record_gesture, lines 151-153)\<close>

text \<open>
  \<^verbatim>\<open>
  rep_idx = int(t // DURATION_PER_REP) + 1
  if rep_idx > REPETITIONS:
      rep_idx = REPETITIONS
  \<close>
\<close>

definition rep_idx_of :: "real \<Rightarrow> real \<Rightarrow> int \<Rightarrow> py_error + int" where
  "rep_idx_of t d R =
     (case py_floordiv t d of
        Inl e \<Rightarrow> Inl e
      | Inr q \<Rightarrow>
          (let rep_idx = py_int_of_float q + 1
           in Inr (if rep_idx > R then R else rep_idx)))"


section \<open>One recording session (record_gesture)\<close>

subsection \<open>Data\<close>

text \<open>A row of the table: \<open>[ms, ch1, adc_to_volt(ch1), ch2, adc_to_volt(ch2), rep_idx]\<close>.\<close>

record row =
  ms :: int
  adc_ch1 :: int
  volt_ch1 :: real
  adc_ch2 :: int
  volt_ch2 :: real
  rep :: int

text \<open>What the program prints, one constructor per message.\<close>

datatype message =
    Gesture_header string
  | Meaning string
  | Prompt string
  | Starting string
  | Recording_repetition int
  | Read_error py_error
  | Done_recording
  | Recording_complete
  | No_data_captured
  | Saving_data string
  | Saved_plot string
  | Connecting
  | Connected
  | Could_not_open
  | All_complete

text \<open>
  What one pass of the \<open>while\<close> loop reads from its environment: the clock at the loop
  test (\<open>time.time() - overall_start\<close>), the serial port (\<open>in_waiting\<close> and
  \<open>readline().decode(errors="ignore")\<close>, either of which may raise), the clock at line
  149, the clock at line 168, and whether the drawing calls succeed.
\<close>

datatype serial_event = Read_fault | No_data | Got_line string

record tick =
  loop_clock :: real
  serial :: serial_event
  sample_clock :: real
  plot_clock :: real
  draw_ok :: bool

text \<open>
  The variables of record_gesture that the loop changes: the three deques, the row list,
  \<open>current_rep\<close>, \<open>last_plot_time\<close>, the number of completed redraws, and the
  messages printed inside the loop.
\<close>

record session =
  timestamps :: "real list"
  emg1 :: "int list"
  emg2 :: "int list"
  rows :: "row list"
  current_rep :: int
  last_plot_time :: real
  redraws :: nat
  console :: "message list"

definition init_session :: session where
  "init_session = \<lparr>timestamps = [], emg1 = [], emg2 = [], rows = [], current_rep = 1,
     last_plot_time = 0, redraws = 0, console = []\<rparr>"

text \<open>
  Control flow of a block inside \<open>try\<close>: it runs to its end, executes \<open>continue\<close>, or
  raises. The state carried is the one reached at that point.
\<close>

datatype 'a flow = Fallthrough 'a | Continue 'a | Raised py_error 'a

subsection \<open>The loop body\<close>

text \<open>Line 165: the row appended for a sample.\<close>

definition row_of :: "config \<Rightarrow> real \<Rightarrow> int \<Rightarrow> int \<Rightarrow> int \<Rightarrow> row" where
  "row_of cfg t ch1 ch2 rep_idx =
     \<lparr>ms = py_int_of_float (t * 1000),
      adc_ch1 = ch1, volt_ch1 = adc_to_volt ch1 (vref cfg) (resolution cfg),
      adc_ch2 = ch2, volt_ch2 = adc_to_volt ch2 (vref cfg) (resolution cfg),
      rep = rep_idx\<rparr>"

text \<open>
  Lines 140-165.
  \<^verbatim>\<open>
  if ser.in_waiting:
      raw_line = ser.readline().decode(errors="ignore").strip()
      if not raw_line:
          continue
      ch1, ch2 = parse_dual_channel(raw_line)
      if ch1 is None or ch2 is None:
          continue
      t = time.time() - overall_start
      rep_idx = ... (rep_idx_of)
      if rep_idx != current_rep:
          current_rep = rep_idx
          print(f"Recording repetition {current_rep} of ...")
      timestamps.append(t); emg1.append(ch1); emg2.append(ch2)
      ms = int((t) * 1000)
      rows.append([ms, ch1, adc_to_volt(ch1), ch2, adc_to_volt(ch2), rep_idx])
  \<close>
\<close>

definition read_sample :: "config \<Rightarrow> tick \<Rightarrow> session \<Rightarrow> session flow" where
  "read_sample cfg tk s =
     (case serial tk of
        Read_fault \<Rightarrow> Raised SerialException s
      | No_data \<Rightarrow> Fallthrough s
      | Got_line decoded \<Rightarrow>
          (let raw_line = strip decoded in
           if raw_line = [] then Continue s
           else
             (case parse_dual_channel raw_line of
                Inl e \<Rightarrow> Raised e s
              | Inr (None, ch2) \<Rightarrow> Continue s
              | Inr (Some c1, None) \<Rightarrow> Continue s
              | Inr (Some c1, Some c2) \<Rightarrow>
                  (let t = sample_clock tk in
                   case rep_idx_of t (duration_per_rep cfg) (repetitions cfg) of
                     Inl e \<Rightarrow> Raised e s
                   | Inr rep_idx \<Rightarrow>
                       (let s1 = (if rep_idx \<noteq> current_rep s
                                  then s\<lparr>current_rep := rep_idx,
                                         console := console s @ [Recording_repetition rep_idx]\<rparr>
                                  else s);
                            s2 = s1\<lparr>timestamps := timestamps s1 @ [t],
                                     emg1 := emg1 s1 @ [c1],
                                     emg2 := emg2 s1 @ [c2]\<rparr>
                        in Fallthrough
                             (s2\<lparr>rows := rows s2 @ [row_of cfg t c1 c2 rep_idx]\<rparr>))))))"

text \<open>
  Lines 168-186: the plot is redrawn when \<open>PLOT_UPDATE_INTERVAL\<close> has passed since the
  last redraw; a failing draw raises before \<open>last_plot_time\<close> is set.
\<close>

definition update_plot :: "config \<Rightarrow> tick \<Rightarrow> session \<Rightarrow> session flow" where
  "update_plot cfg tk s =
     (let now = plot_clock tk in
      if now - last_plot_time s \<ge> plot_update_interval cfg then
        (if draw_ok tk
         then Fallthrough (s\<lparr>redraws := Suc (redraws s), last_plot_time := now\<rparr>)
         else Raised RenderError s)
      else Fallthrough s)"

text \<open>Lines 191-192: \<open>except Exception as e: print(...)\<close>, and the loop goes on.\<close>

definition warn :: "py_error \<Rightarrow> session \<Rightarrow> session" where
  "warn e s = s\<lparr>console := console s @ [Read_error e]\<rparr>"

definition loop_body :: "config \<Rightarrow> session \<Rightarrow> tick \<Rightarrow> session" where
  "loop_body cfg s tk =
     (case read_sample cfg tk s of
        Continue s1 \<Rightarrow> s1
      | Raised e s1 \<Rightarrow> warn e s1
      | Fallthrough s1 \<Rightarrow>
          (case update_plot cfg tk s1 of
             Raised e s2 \<Rightarrow> warn e s2
           | Continue s2 \<Rightarrow> s2
           | Fallthrough s2 \<Rightarrow> s2))"

text \<open>
  Line 138: \<open>while (time.time() - overall_start) < TOTAL_DURATION\<close>. The list holds the
  passes the environment provides; \<open>None\<close> says that the loop is still running when
  the list ends.
\<close>

fun acquire :: "config \<Rightarrow> tick list \<Rightarrow> session \<Rightarrow> session option" where
  "acquire cfg [] s = None"
| "acquire cfg (tk # tks) s =
     (if loop_clock tk < total_duration cfg
      then acquire cfg tks (loop_body cfg s tk)
      else Some s)"

subsection \<open>Saving, and the run over all gestures\<close>

text \<open>
  The file system is a list of written files, newest first. \<open>csv_ok\<close> and \<open>png_ok\<close>
  say whether \<open>df.to_csv\<close> and \<open>fig.savefig\<close> succeed, \<open>save_dir_ok\<close> and
  \<open>graph_dir_ok\<close> whether the two \<open>os.makedirs\<close> calls of ensure_dirs do; a failing
  call raises OSError. The prompt and the figure set-up are taken to succeed.
\<close>

datatype artifact = Table "string list" "row list" | Image "real list" "int list" "int list"

record world =
  files :: "(string \<times> artifact) list"
  dirs :: "string list"
  terminal :: "message list"
  open_figures :: nat
  port_open :: bool

record gesture_env =
  ticks :: "tick list"
  save_dir_ok :: bool
  graph_dir_ok :: bool
  csv_ok :: bool
  png_ok :: bool

definition path_join :: "string \<Rightarrow> string \<Rightarrow> string" where
  "path_join dir name = dir @ ''/'' @ name"

definition csv_columns :: "string list" where
  "csv_columns = [''ms'', ''adc_ch1'', ''volt_ch1'', ''adc_ch2'', ''volt_ch2'', ''rep'']"

definition say :: "message list \<Rightarrow> world \<Rightarrow> world" where
  "say msgs w = w\<lparr>terminal := terminal w @ msgs\<rparr>"

text \<open>
  \<^verbatim>\<open>
  def ensure_dirs():
      os.makedirs(SAVE_DIR, exist_ok=True)
      os.makedirs(GRAPH_DIR, exist_ok=True)
  \<close>
  \<open>os.makedirs(d, exist_ok=True)\<close> creates the directory when it is absent and raises
  OSError when it cannot.
\<close>

definition makedirs :: "bool \<Rightarrow> string \<Rightarrow> world \<Rightarrow> py_error option \<times> world" where
  "makedirs ok d w =
     (if ok then (None, w\<lparr>dirs := (if d \<in> set (dirs w) then dirs w else d # dirs w)\<rparr>)
      else (Some OSError, w))"

definition ensure_dirs :: "gesture_env \<Rightarrow> world \<Rightarrow> py_error option \<times> world" where
  "ensure_dirs env w =
     (case makedirs (save_dir_ok env) SAVE_DIR w of
        (Some e, w1) \<Rightarrow> (Some e, w1)
      | (None, w1) \<Rightarrow> makedirs (graph_dir_ok env) GRAPH_DIR w1)"

text \<open>
  Lines 199-222.
  \<^verbatim>\<open>
  if len(rows) == 0:
      print("No data was captured for this gesture.")
  else:
      df = pd.DataFrame(rows, columns=[...])
      save_path = os.path.join(SAVE_DIR, f"{gesture_name}.csv")
      df.to_csv(save_path, index=False)
      print(f"Saving data to: {save_path}")
      if len(timestamps) > 0:
          ...
          graph_path = os.path.join(GRAPH_DIR, f"{gesture_name}.png")
          fig.savefig(graph_path, dpi=200)
          print(f"Saved plot to: {graph_path}")
  \<close>
  The result is the exception that leaves the block, if any, and the world reached.
\<close>

definition save_outputs :: "gesture_env \<Rightarrow> string \<Rightarrow> session \<Rightarrow> world \<Rightarrow> py_error option \<times> world" where
  "save_outputs env gesture_name s w =
     (if length (rows s) = 0 then (None, say [No_data_captured] w)
      else if \<not> csv_ok env then (Some OSError, w)
      else
        (let save_path = path_join SAVE_DIR (gesture_name @ ''.csv'');
             w1 = say [Saving_data save_path]
                    (w\<lparr>files := (save_path, Table csv_columns (rows s)) # files w\<rparr>)
         in if length (timestamps s) > 0 then
              (if \<not> png_ok env then (Some OSError, w1)
               else
                 (let graph_path = path_join GRAPH_DIR (gesture_name @ ''.png'');
                      w2 = say [Saved_plot graph_path]
                             (w1\<lparr>files := (graph_path, Image (timestamps s) (emg1 s) (emg2 s))
                                            # files w1\<rparr>)
                  in (None, w2)))
            else (None, w1)))"

text \<open>
  record_gesture: the header, the figure, the prompt, the loop, ensure_dirs (line 197),
  the saving, and \<open>finally: plt.close(fig)\<close>. There is no \<open>except\<close> around ensure_dirs
  and the saving, so an exception raised there leaves the function.
\<close>

definition record_gesture ::
  "config \<Rightarrow> gesture_env \<Rightarrow> string \<Rightarrow> world \<Rightarrow> (py_error option \<times> world) option" where
  "record_gesture cfg env gesture_name w =
     (let meaning = (case map_of GESTURES gesture_name of Some m \<Rightarrow> m | None \<Rightarrow> ''N/A'');
          w1 = say [Gesture_header gesture_name, Meaning meaning] w;
          w2 = w1\<lparr>open_figures := Suc (open_figures w1)\<rparr>;
          w3 = say [Prompt gesture_name, Starting gesture_name, Recording_repetition 1] w2
      in case acquire cfg (ticks env) init_session of
           None \<Rightarrow> None
         | Some s \<Rightarrow>
             (let w4 = say (console s @ [Done_recording, Recording_complete]) w3
              in case ensure_dirs env w4 of
                   (Some e, w5) \<Rightarrow> Some (Some e, w5\<lparr>open_figures := open_figures w5 - 1\<rparr>)
                 | (None, w5) \<Rightarrow>
                     (let (raised, w6) = save_outputs env gesture_name s w5
                      in Some (raised, w6\<lparr>open_figures := open_figures w6 - 1\<rparr>))))"

text \<open>
  main: \<open>for gesture in GESTURES: record_gesture(ser, gesture)\<close> inside
  \<open>try ... finally: ser.close()\<close>. An exception from record_gesture ends the loop.
\<close>

fun run_gestures ::
  "config \<Rightarrow> (string \<Rightarrow> gesture_env) \<Rightarrow> string list \<Rightarrow> world \<Rightarrow> (py_error option \<times> world) option" where
  "run_gestures cfg env [] w = Some (None, w)"
| "run_gestures cfg env (gesture # rest) w =
     (case record_gesture cfg (env gesture) gesture w of
        None \<Rightarrow> None
      | Some (Some e, w') \<Rightarrow> Some (Some e, w')
      | Some (None, w') \<Rightarrow> run_gestures cfg env rest w')"

definition main :: "config \<Rightarrow> bool \<Rightarrow> (string \<Rightarrow> gesture_env) \<Rightarrow> (py_error option \<times> world) option" where
  "main cfg port_ok env =
     (let w0 = \<lparr>files = [], dirs = [], terminal = [Connecting], open_figures = 0,
                port_open = False\<rparr>
      in if \<not> port_ok then Some (None, say [Could_not_open] w0)
         else
           (let w1 = say [Connected] (w0\<lparr>port_open := True\<rparr>)
            in case run_gestures cfg env (map fst GESTURES) w1 of
                 None \<Rightarrow> None
               | Some (Some e, w2) \<Rightarrow> Some (Some e, w2\<lparr>port_open := False\<rparr>)
               | Some (None, w2) \<Rightarrow> Some (None, (say [All_complete] w2)\<lparr>port_open := False\<rparr>)))"

subsection \<open>Auxiliary notions for the statements\<close>

text \<open>The repetition numbers announced by a list of messages.\<close>

fun notified :: "message list \<Rightarrow> int list" where
  "notified [] = []"
| "notified (Recording_repetition r # msgs) = r # notified msgs"
| "notified (m # msgs) = notified msgs"

text \<open>
  The entries of a list that differ from their predecessor, the predecessor of the first
  entry being \<open>prev\<close>.
\<close>

fun changes :: "int \<Rightarrow> int list \<Rightarrow> int list" where
  "changes prev [] = []"
| "changes prev (x # xs) = (if x \<noteq> prev then x # changes x xs else changes x xs)"

text \<open>A pass of the loop whose line yields a reading.\<close>

definition has_sample :: "tick \<Rightarrow> bool" where
  "has_sample tk =
     (case serial tk of
        Got_line decoded \<Rightarrow>
          (case parse_dual_channel (strip decoded) of
             Inr (Some c1, Some c2) \<Rightarrow> strip decoded \<noteq> []
           | _ \<Rightarrow> False)
      | _ \<Rightarrow> False)"

text \<open>The relation between the buffers that every pass of the loop keeps.\<close>

definition session_inv :: "config \<Rightarrow> session \<Rightarrow> bool" where
  "session_inv cfg s \<longleftrightarrow>
     length (timestamps s) = length (rows s)
     \<and> length (emg1 s) = length (rows s)
     \<and> length (emg2 s) = length (rows s)
     \<and> map ms (rows s) = map (\<lambda>t. py_int_of_float (t * 1000)) (timestamps s)
     \<and> map adc_ch1 (rows s) = emg1 s
     \<and> map adc_ch2 (rows s) = emg2 s
     \<and> map volt_ch1 (rows s) = map (\<lambda>c. adc_to_volt c (vref cfg) (resolution cfg)) (emg1 s)
     \<and> map volt_ch2 (rows s) = map (\<lambda>c. adc_to_volt c (vref cfg) (resolution cfg)) (emg2 s)
     \<and> map (\<lambda>r. Inr (rep r)) (rows s)
         = map (\<lambda>t. rep_idx_of t (duration_per_rep cfg) (repetitions cfg)) (timestamps s)
     \<and> current_rep s = last (1 # map rep (rows s))
     \<and> notified (console s) = changes 1 (map rep (rows s))"

subsection \<open>Concrete sessions\<close>

definition sample_tick :: "real \<Rightarrow> string \<Rightarrow> tick" where
  "sample_tick t line = \<lparr>loop_clock = t, serial = Got_line line, sample_clock = t,
     plot_clock = 1000 + t, draw_ok = True\<rparr>"

definition stop_tick :: "real \<Rightarrow> tick" where
  "stop_tick t = \<lparr>loop_clock = t, serial = No_data, sample_clock = t,
     plot_clock = 1000 + t, draw_ok = True\<rparr>"

definition csv_fault_env :: "string \<Rightarrow> gesture_env" where
  "csv_fault_env g = \<lparr>ticks = [sample_tick (1 / 2) ''100,200'', stop_tick 45],
     save_dir_ok = True, graph_dir_ok = True, csv_ok = False, png_ok = True\<rparr>"

definition png_fault_env :: "string \<Rightarrow> gesture_env" where
  "png_fault_env g = \<lparr>ticks = [sample_tick (1 / 2) ''100,200'', stop_tick 45],
     save_dir_ok = True, graph_dir_ok = True, csv_ok = True, png_ok = False\<rparr>"

definition good_env :: "string \<Rightarrow> gesture_env" where
  "good_env g = \<lparr>ticks = [sample_tick (1 / 2) ''100,200'', stop_tick 45],
     save_dir_ok = True, graph_dir_ok = True, csv_ok = True, png_ok = True\<rparr>"

definition scenario_config :: config where
  "scenario_config = \<lparr>duration_per_rep = 3, repetitions = 2, plot_update_interval = 5 / 100,
     vref = 33 / 10, resolution = 4095\<rparr>"

definition scenario_ticks :: "tick list" where
  "scenario_ticks = [sample_tick (1 / 2) ''100,200'', sample_tick (7 / 2) ''100,200'',
     sample_tick (59 / 10) ''100,200'']"

definition late_ticks :: "tick list" where
  "late_ticks = [sample_tick (7 / 2) ''100,200'', sample_tick (59 / 10) ''100,200'']"

definition quiet_ticks :: "tick list" where
  "quiet_ticks = [stop_tick 1, sample_tick 2 ''abc'', sample_tick 3 ''   '',
     \<lparr>loop_clock = 4, serial = Read_fault, sample_clock = 4, plot_clock = 1004, draw_ok = False\<rparr>,
     sample_tick 5 ''EMG 7'']"

definition quiet_env :: gesture_env where
  "quiet_env = \<lparr>ticks = quiet_ticks @ [stop_tick 45], save_dir_ok = True,
     graph_dir_ok = True, csv_ok = True, png_ok = True\<rparr>"

definition no_dirs_env :: gesture_env where
  "no_dirs_env = \<lparr>ticks = quiet_ticks @ [stop_tick 45], save_dir_ok = False,
     graph_dir_ok = True, csv_ok = True, png_ok = True\<rparr>"

definition blank_world :: world where
  "blank_world = \<lparr>files = [], dirs = [], terminal = [], open_figures = 0, port_open = True\<rparr>"

definition one_sample_session :: session where
  "one_sample_session = \<lparr>timestamps = [1 / 2], emg1 = [100], emg2 = [200],
     rows = [\<lparr>ms = 500, adc_ch1 = 100, volt_ch1 = 22 / 273, adc_ch2 = 200,
              volt_ch2 = 44 / 273, rep = 1\<rparr>],
     current_rep = 1, last_plot_time = 2001 / 2, redraws = 1, console = []\<rparr>"

section \<open>Helper lemmas\<close>

subsection \<open>Numbers\<close>

lemma py_int_of_float_of_int [simp]: "py_int_of_float (of_int n) = n"
  by (simp add: py_int_of_float_def)

lemma py_int_of_float_mono: "x \<le> y \<Longrightarrow> py_int_of_float x \<le> py_int_of_float y"
  unfolding py_int_of_float_def
  by (auto intro: floor_mono ceiling_mono order_trans [OF ceiling_mono, of _ 0] simp: not_le)

lemma rep_idx_of_eq:
  "d \<noteq> 0 \<Longrightarrow> rep_idx_of t d R = Inr (min (\<lfloor>t / d\<rfloor> + 1) R)"
  by (simp add: rep_idx_of_def py_floordiv_def min_def)

lemma rep_idx_of_mono:
  assumes "0 < d" "t \<le> t'" "rep_idx_of t d R = Inr r" "rep_idx_of t' d R = Inr r'"
  shows "r \<le> r'"
proof -
  from assms(1,2) have "t / d \<le> t' / d"
    by (simp add: divide_right_mono)
  then have "\<lfloor>t / d\<rfloor> \<le> \<lfloor>t' / d\<rfloor>"
    by (rule floor_mono)
  with assms show ?thesis
    by (simp add: rep_idx_of_eq min_def split: if_splits)
qed

subsection \<open>Digit runs and integer conversion\<close>

lemma is_digit_not_space: "is_digit c \<Longrightarrow> \<not> is_space c"
  by (auto simp: is_digit_def is_space_def Let_def)

lemma is_digit_not_sign: "is_digit c \<Longrightarrow> c \<noteq> CHR ''-'' \<and> c \<noteq> CHR ''+'' \<and> c \<noteq> CHR ''_''"
  by (auto simp: is_digit_def)

lemma findall_digits_skip:
  "\<forall>c\<in>set p. \<not> is_digit c \<Longrightarrow> findall_digits (p @ r) = findall_digits r"
  by (induction p) simp_all

lemma findall_digits_run:
  assumes "a \<noteq> []" and "\<forall>c\<in>set a. is_digit c" and "r = [] \<or> \<not> is_digit (hd r)"
  shows "findall_digits (a @ r) = a # findall_digits r"
proof -
  from assms(1) obtain c a' where a: "a = c # a'" by (cases a) auto
  from assms(3) have tw: "takeWhile is_digit r = []" and dw: "dropWhile is_digit r = r"
    by (cases r; simp)+
  from assms(2) a have "takeWhile is_digit (a @ r) = a" "dropWhile is_digit (a' @ r) = r"
    using tw dw by (simp_all add: takeWhile_append2 dropWhile_append2)
  with assms(2) a show ?thesis by simp
qed

lemma findall_digits_all_digits:
  "s \<in> set (findall_digits line) \<Longrightarrow> s \<noteq> [] \<and> (\<forall>c\<in>set s. is_digit c)"
proof (induction line rule: findall_digits.induct)
  case 1
  then show ?case by simp
next
  case (2 c cs)
  show ?case
  proof (cases "is_digit c")
    case True
    with "2.prems" have "s = c # takeWhile is_digit cs \<or> s \<in> set (findall_digits (dropWhile is_digit cs))"
      by simp
    then show ?thesis
    proof
      assume "s = c # takeWhile is_digit cs"
      with True show ?thesis by (auto dest: set_takeWhileD)
    next
      assume "s \<in> set (findall_digits (dropWhile is_digit cs))"
      with True "2.IH"(1) show ?thesis by blast
    qed
  next
    case False
    with "2.prems" have "s \<in> set (findall_digits cs)" by simp
    with False "2.IH"(2) show ?thesis by blast
  qed
qed

lemma digits_body_all_digits:
  "\<forall>c\<in>set s. is_digit c \<Longrightarrow>
     digits_body prev acc s =
       (if s = [] \<and> \<not> prev then None
        else Some (foldl (\<lambda>acc c. acc * 10 + digit_val c) acc s))"
  by (induction s arbitrary: prev acc) simp_all

lemma strip_all_digits:
  assumes "\<forall>c\<in>set s. is_digit c"
  shows "strip s = s"
proof -
  from assms have "\<forall>c\<in>set s. \<not> is_space c" "\<forall>c\<in>set (rev s). \<not> is_space c"
    by (auto dest: is_digit_not_space)
  then have "dropWhile is_space s = s" "dropWhile is_space (rev s) = rev s"
    by (auto simp: dropWhile_eq_self_iff hd_rev)
  then show ?thesis by (simp add: strip_def)
qed

lemma unsigned_int_digits:
  assumes "s \<noteq> []" and "\<forall>c\<in>set s. is_digit c"
  shows "unsigned_int s =
    (if length s \<le> int_max_str_digits then Inr (int (decimal s)) else Inl ValueError)"
proof -
  from assms have "digits_body False 0 s = Some (decimal s)"
    by (simp add: digits_body_all_digits decimal_def)
  moreover from assms(2) have "filter is_digit s = s"
    by (simp add: filter_id_conv)
  ultimately show ?thesis
    by (simp add: unsigned_int_def int_max_str_digits_def)
qed

lemma py_int_str_digits:
  assumes "s \<noteq> []" and "\<forall>c\<in>set s. is_digit c"
  shows "py_int_str s =
    (if length s \<le> int_max_str_digits then Inr (int (decimal s)) else Inl ValueError)"
proof -
  from assms(1) obtain c cs where s: "s = c # cs" by (cases s) auto
  with assms(2) have "is_digit c" by simp
  then have "c \<noteq> CHR ''-''" "c \<noteq> CHR ''+''" by (simp_all add: is_digit_not_sign)
  then have "py_int_str s = unsigned_int s"
    using s strip_all_digits [OF assms(2)] by (simp add: py_int_str_def)
  then show ?thesis by (simp add: unsigned_int_digits [OF assms])
qed

lemma to_int_caught_digits:
  assumes "s \<noteq> []" and "\<forall>c\<in>set s. is_digit c"
  shows "to_int_caught s k =
    (if length s \<le> int_max_str_digits then k (int (decimal s)) else Inr (None, None))"
  by (simp add: to_int_caught_def py_int_str_digits [OF assms])

lemma parse_dual_channel_runs:
  "parse_dual_channel line =
     (case findall_digits line of
        a # b # rest \<Rightarrow>
          (if length a \<le> int_max_str_digits \<and> length b \<le> int_max_str_digits
           then Inr (Some (int (decimal a)), Some (int (decimal b)))
           else Inr (None, None))
      | _ \<Rightarrow> Inr (None, None))"
proof (cases "findall_digits line")
  case Nil
  then show ?thesis by (simp add: parse_dual_channel_def)
next
  case (Cons a as)
  note outer = this
  show ?thesis
  proof (cases as)
    case Nil
    with outer show ?thesis by (simp add: parse_dual_channel_def)
  next
    case (Cons b rest)
    with outer have "a \<in> set (findall_digits line)" "b \<in> set (findall_digits line)"
      by simp_all
    then have a: "a \<noteq> []" "\<forall>c\<in>set a. is_digit c" and b: "b \<noteq> []" "\<forall>c\<in>set b. is_digit c"
      by (auto dest!: findall_digits_all_digits)
    from outer Cons show ?thesis
      by (simp add: parse_dual_channel_def py_index_def to_int_caught_digits [OF a]
          to_int_caught_digits [OF b])
  qed
qed

lemma parse_dual_channel_never_raises: "\<exists>r. parse_dual_channel line = Inr r"
  by (simp add: parse_dual_channel_runs split: list.splits)

lemma two_runs:
  assumes "\<forall>c\<in>set p. \<not> is_digit c"
    and "a \<noteq> []" and "\<forall>c\<in>set a. is_digit c"
    and "m \<noteq> []" and "\<forall>c\<in>set m. \<not> is_digit c"
    and "b \<noteq> []" and "\<forall>c\<in>set b. is_digit c"
    and "rest = [] \<or> \<not> is_digit (hd rest)"
  shows "findall_digits (p @ a @ m @ b @ rest) = a # b # findall_digits rest"
proof -
  from assms(4,5) have "\<not> is_digit (hd (m @ b @ rest))" by (cases m) simp_all
  then have "findall_digits (a @ m @ b @ rest) = a # findall_digits (m @ b @ rest)"
    using assms(2,3) by (intro findall_digits_run) simp_all
  then show ?thesis
    using assms by (simp add: findall_digits_skip findall_digits_run)
qed

lemma at_most_one_run:
  assumes "\<forall>c\<in>set p. \<not> is_digit c" and "\<forall>c\<in>set a. is_digit c" and "\<forall>c\<in>set q. \<not> is_digit c"
  shows "length (findall_digits (p @ a @ q)) \<le> 1"
proof -
  have q: "findall_digits q = []"
    using findall_digits_skip [OF assms(3), of "[]"] by simp
  have hq: "q = [] \<or> \<not> is_digit (hd q)" using assms(3) by (cases q) simp_all
  show ?thesis
  proof (cases "a = []")
    case True
    with assms q show ?thesis by (simp add: findall_digits_skip)
  next
    case False
    from findall_digits_run [OF False assms(2) hq] q assms(1) show ?thesis
      by (simp add: findall_digits_skip)
  qed
qed

lemma line_forms:
  "(\<exists>p a q. line = p @ a @ q \<and> (\<forall>c\<in>set p. \<not> is_digit c) \<and> (\<forall>c\<in>set a. is_digit c)
       \<and> (\<forall>c\<in>set q. \<not> is_digit c))
   \<or> (\<exists>p a m b rest. line = p @ a @ m @ b @ rest \<and> (\<forall>c\<in>set p. \<not> is_digit c)
       \<and> a \<noteq> [] \<and> (\<forall>c\<in>set a. is_digit c) \<and> m \<noteq> [] \<and> (\<forall>c\<in>set m. \<not> is_digit c)
       \<and> b \<noteq> [] \<and> (\<forall>c\<in>set b. is_digit c) \<and> (rest = [] \<or> \<not> is_digit (hd rest)))"
proof -
  define nd where "nd = (\<lambda>c. \<not> is_digit c)"
  define p where "p = takeWhile nd line"
  define r1 where "r1 = dropWhile nd line"
  define a where "a = takeWhile is_digit r1"
  define r2 where "r2 = dropWhile is_digit r1"
  define m where "m = takeWhile nd r2"
  define r3 where "r3 = dropWhile nd r2"
  define b where "b = takeWhile is_digit r3"
  define rest where "rest = dropWhile is_digit r3"
  have line: "line = p @ a @ m @ b @ rest"
    by (simp add: p_def a_def m_def b_def rest_def r1_def r2_def r3_def)
  have P: "\<forall>c\<in>set p. \<not> is_digit c" "\<forall>c\<in>set m. \<not> is_digit c"
    by (auto simp: p_def m_def nd_def dest: set_takeWhileD)
  have D: "\<forall>c\<in>set a. is_digit c" "\<forall>c\<in>set b. is_digit c"
    by (auto simp: a_def b_def dest: set_takeWhileD)
  have R: "rest = [] \<or> \<not> is_digit (hd rest)"
    unfolding rest_def by (metis hd_dropWhile)
  show ?thesis
  proof (cases "b = []")
    case True
    then have "r3 = [] \<or> \<not> is_digit (hd r3)"
      by (cases r3) (auto simp: b_def split: if_splits)
    moreover have "r3 = [] \<or> \<not> nd (hd r3)"
      unfolding r3_def by (metis hd_dropWhile)
    ultimately have "r3 = []" by (auto simp: nd_def)
    with True have "line = p @ a @ m" using line by (simp add: rest_def)
    with P D show ?thesis by blast
  next
    case False
    then have r3: "r3 \<noteq> []" by (auto simp: b_def)
    then have r2: "r2 \<noteq> []" by (auto simp: r3_def)
    then have r1: "r1 \<noteq> []" by (auto simp: r2_def)
    have "\<not> is_digit (hd r2)" using r2 unfolding r2_def by (metis hd_dropWhile)
    with r2 have m: "m \<noteq> []" by (cases r2) (auto simp: m_def nd_def)
    have "\<not> nd (hd r1)" using r1 unfolding r1_def by (metis hd_dropWhile)
    with r1 have a: "a \<noteq> []" by (cases r1) (auto simp: a_def nd_def)
    from line P D R False m a show ?thesis by blast
  qed
qed


subsection \<open>The loop\<close>

lemma notified_append: "notified (xs @ ys) = notified xs @ notified ys"
  by (induction xs rule: notified.induct) simp_all

lemma changes_snoc:
  "changes p (xs @ [x]) = changes p xs @ (if x \<noteq> last (p # xs) then [x] else [])"
  by (induction xs arbitrary: p) simp_all

lemma changes_sorted_aux:
  "sorted (p # xs) \<Longrightarrow> sorted_wrt (<) (changes p xs) \<and> (\<forall>y\<in>set (changes p xs). p < y)"
proof (induction xs arbitrary: p)
  case Nil
  then show ?case by simp
next
  case (Cons x xs)
  from Cons.prems have px: "p \<le> x" and sx: "sorted (x # xs)" by simp_all
  from Cons.IH [OF sx] have
    ih: "sorted_wrt (<) (changes x xs)" "\<forall>y\<in>set (changes x xs). x < y" by simp_all
  with px show ?case by (auto simp: less_le_trans)
qed

lemma changes_sorted: "sorted xs \<Longrightarrow> sorted_wrt (<) (changes p xs)"
proof (cases xs)
  case Nil
  then show ?thesis by simp
next
  case (Cons x ys)
  assume "sorted xs"
  with Cons have "sorted (x # ys)" by simp
  from changes_sorted_aux [OF this] Cons show ?thesis by auto
qed

text \<open>What one iteration does to the buffers: nothing, or one sample appended to each.\<close>

lemma loop_body_cases:
  obtains (idle) "timestamps (loop_body cfg s tk) = timestamps s"
      "emg1 (loop_body cfg s tk) = emg1 s" "emg2 (loop_body cfg s tk) = emg2 s"
      "rows (loop_body cfg s tk) = rows s" "current_rep (loop_body cfg s tk) = current_rep s"
      "notified (console (loop_body cfg s tk)) = notified (console s)"
  | (sample) t c1 c2 r where
      "rep_idx_of t (duration_per_rep cfg) (repetitions cfg) = Inr r"
      "timestamps (loop_body cfg s tk) = timestamps s @ [t]"
      "emg1 (loop_body cfg s tk) = emg1 s @ [c1]" "emg2 (loop_body cfg s tk) = emg2 s @ [c2]"
      "rows (loop_body cfg s tk) = rows s @ [row_of cfg t c1 c2 r]"
      "current_rep (loop_body cfg s tk) = r"
      "notified (console (loop_body cfg s tk))
         = notified (console s) @ (if r \<noteq> current_rep s then [r] else [])"
proof -
  have "(timestamps (loop_body cfg s tk) = timestamps s
      \<and> emg1 (loop_body cfg s tk) = emg1 s \<and> emg2 (loop_body cfg s tk) = emg2 s
      \<and> rows (loop_body cfg s tk) = rows s \<and> current_rep (loop_body cfg s tk) = current_rep s
      \<and> notified (console (loop_body cfg s tk)) = notified (console s))
    \<or> (\<exists>t c1 c2 r. rep_idx_of t (duration_per_rep cfg) (repetitions cfg) = Inr r
      \<and> timestamps (loop_body cfg s tk) = timestamps s @ [t]
      \<and> emg1 (loop_body cfg s tk) = emg1 s @ [c1] \<and> emg2 (loop_body cfg s tk) = emg2 s @ [c2]
      \<and> rows (loop_body cfg s tk) = rows s @ [row_of cfg t c1 c2 r]
      \<and> current_rep (loop_body cfg s tk) = r
      \<and> notified (console (loop_body cfg s tk))
         = notified (console s) @ (if r \<noteq> current_rep s then [r] else []))"
    by (auto simp: loop_body_def read_sample_def update_plot_def warn_def Let_def notified_append
        split: serial_event.splits sum.splits option.splits prod.splits)
  then show thesis using idle sample by blast
qed

lemma session_inv_init: "session_inv cfg init_session"
  by (simp add: session_inv_def init_session_def)

lemma session_inv_step:
  assumes "session_inv cfg s"
  shows "session_inv cfg (loop_body cfg s tk)"
proof (cases rule: loop_body_cases [of cfg s tk])
  case idle
  with assms show ?thesis by (simp add: session_inv_def)
next
  case (sample t c1 c2 r)
  with assms show ?thesis
    by (simp add: session_inv_def row_of_def changes_snoc)
qed

lemma session_inv_foldl:
  "session_inv cfg s \<Longrightarrow> session_inv cfg (foldl (loop_body cfg) s tks)"
  by (induction tks arbitrary: s) (simp_all add: session_inv_step)

lemma acquire_Some_foldl:
  "acquire cfg tks s = Some s' \<Longrightarrow>
     \<exists>pre stop post. tks = pre @ stop # post \<and> s' = foldl (loop_body cfg) s pre
       \<and> (\<forall>tk\<in>set pre. loop_clock tk < total_duration cfg)
       \<and> total_duration cfg \<le> loop_clock stop"
proof (induction tks arbitrary: s)
  case Nil
  then show ?case by simp
next
  case (Cons tk tks)
  show ?case
  proof (cases "loop_clock tk < total_duration cfg")
    case True
    with Cons.prems have "acquire cfg tks (loop_body cfg s tk) = Some s'" by simp
    from Cons.IH [OF this] obtain pre stop post where
      "tks = pre @ stop # post" "s' = foldl (loop_body cfg) (loop_body cfg s tk) pre"
      "\<forall>x\<in>set pre. loop_clock x < total_duration cfg" "total_duration cfg \<le> loop_clock stop"
      by blast
    with True have "tk # tks = (tk # pre) @ stop # post \<and> s' = foldl (loop_body cfg) s (tk # pre)
       \<and> (\<forall>x\<in>set (tk # pre). loop_clock x < total_duration cfg)
       \<and> total_duration cfg \<le> loop_clock stop"
      by simp
    then show ?thesis by blast
  next
    case False
    with Cons.prems have "s' = s" by simp
    with False have "tk # tks = [] @ tk # tks \<and> s' = foldl (loop_body cfg) s []
       \<and> (\<forall>x\<in>set []. loop_clock x < total_duration cfg)
       \<and> total_duration cfg \<le> loop_clock tk"
      by simp
    then show ?thesis by blast
  qed
qed

lemma acquire_stops:
  assumes "\<forall>tk\<in>set pre. loop_clock tk < total_duration cfg"
    and "total_duration cfg \<le> loop_clock stop"
  shows "acquire cfg (pre @ stop # post) s = Some (foldl (loop_body cfg) s pre)"
  using assms by (induction pre arbitrary: s) simp_all

lemma session_inv_acquire:
  "acquire cfg tks init_session = Some s \<Longrightarrow> session_inv cfg s"
  by (auto dest!: acquire_Some_foldl intro: session_inv_foldl session_inv_init)

lemma sorted_map_mono:
  "sorted xs \<Longrightarrow> (\<And>x y. x \<le> y \<Longrightarrow> f x \<le> f y) \<Longrightarrow> sorted (map f xs)"
  by (induction xs) auto

lemma map_Inr_eq:
  "map (\<lambda>x. Inr (f x) :: 'e + 'b) xs = map (\<lambda>y. Inr (g y)) ys \<Longrightarrow> map f xs = map g ys"
  by (induction xs arbitrary: ys) auto

lemma session_inv_rep:
  assumes "session_inv cfg s" and "duration_per_rep cfg \<noteq> 0"
  shows "map rep (rows s)
    = map (\<lambda>t. min (\<lfloor>t / duration_per_rep cfg\<rfloor> + 1) (repetitions cfg)) (timestamps s)"
proof -
  from assms have "map (\<lambda>r. Inr (rep r) :: py_error + int) (rows s)
    = map (\<lambda>t. Inr (min (\<lfloor>t / duration_per_rep cfg\<rfloor> + 1) (repetitions cfg))) (timestamps s)"
    by (simp add: session_inv_def rep_idx_of_eq)
  then show ?thesis by (rule map_Inr_eq)
qed

lemma sorted_rep:
  assumes "session_inv cfg s" and "0 < duration_per_rep cfg" and "sorted (timestamps s)"
  shows "sorted (map rep (rows s))"
proof -
  have "min (\<lfloor>x / duration_per_rep cfg\<rfloor> + 1) (repetitions cfg)
      \<le> min (\<lfloor>y / duration_per_rep cfg\<rfloor> + 1) (repetitions cfg)" if "x \<le> y" for x y
  proof -
    from that assms(2) have "x / duration_per_rep cfg \<le> y / duration_per_rep cfg"
      by (simp add: divide_right_mono)
    then have "\<lfloor>x / duration_per_rep cfg\<rfloor> \<le> \<lfloor>y / duration_per_rep cfg\<rfloor>"
      by (rule floor_mono)
    then show ?thesis by (simp add: min_def)
  qed
  with assms(3) have "sorted (map (\<lambda>t. min (\<lfloor>t / duration_per_rep cfg\<rfloor> + 1) (repetitions cfg))
      (timestamps s))"
    by (rule sorted_map_mono)
  with assms(1,2) show ?thesis
    by (simp add: session_inv_rep)
qed

lemma sorted_ms:
  assumes "session_inv cfg s" and "sorted (timestamps s)"
  shows "sorted (map ms (rows s))"
proof -
  have "py_int_of_float (x * 1000) \<le> py_int_of_float (y * 1000)" if "x \<le> y" for x y :: real
    using that by (intro py_int_of_float_mono) simp
  with assms(2) have "sorted (map (\<lambda>t. py_int_of_float (t * 1000)) (timestamps s))"
    by (rule sorted_map_mono)
  with assms(1) show ?thesis by (simp add: session_inv_def)
qed

lemma no_sample_rows:
  "\<not> has_sample tk \<Longrightarrow> rows (loop_body cfg s tk) = rows s"
  by (auto simp: has_sample_def loop_body_def read_sample_def update_plot_def warn_def Let_def
      split: serial_event.splits sum.splits option.splits prod.splits)

lemma no_samples_rows:
  "\<forall>tk\<in>set tks. \<not> has_sample tk \<Longrightarrow> rows (foldl (loop_body cfg) s tks) = rows s"
  by (induction tks arbitrary: s) (simp_all add: no_sample_rows)

lemma ensure_dirs_result:
  "fst (ensure_dirs env w) = (if save_dir_ok env \<and> graph_dir_ok env then None else Some OSError)"
  "files (snd (ensure_dirs env w)) = files w"
  "terminal (snd (ensure_dirs env w)) = terminal w"
  "open_figures (snd (ensure_dirs env w)) = open_figures w"
  by (simp_all add: ensure_dirs_def makedirs_def)

lemma record_gesture_outcome:
  assumes "acquire cfg (ticks env) init_session = Some s"
  shows "\<exists>w5. files w5 = files w
     \<and> open_figures w5 = Suc (open_figures w)
     \<and> terminal w5 = terminal w @
         [Gesture_header g,
          Meaning (case map_of GESTURES g of Some m \<Rightarrow> m | None \<Rightarrow> ''N/A''),
          Prompt g, Starting g, Recording_repetition 1] @ console s
         @ [Done_recording, Recording_complete]
     \<and> record_gesture cfg env g w =
         Some (if save_dir_ok env \<and> graph_dir_ok env
               then (fst (save_outputs env g s w5),
                     (snd (save_outputs env g s w5))
                       \<lparr>open_figures := open_figures (snd (save_outputs env g s w5)) - 1\<rparr>)
               else (Some OSError, w5\<lparr>open_figures := open_figures w5 - 1\<rparr>))"
proof -
  let ?w1 = "say [Gesture_header g,
     Meaning (case map_of GESTURES g of Some m \<Rightarrow> m | None \<Rightarrow> ''N/A'')] w"
  let ?w4 = "say (console s @ [Done_recording, Recording_complete])
     (say [Prompt g, Starting g, Recording_repetition 1]
        (?w1\<lparr>open_figures := Suc (open_figures ?w1)\<rparr>))"
  obtain r w5 where ed: "ensure_dirs env ?w4 = (r, w5)"
    by (cases "ensure_dirs env ?w4") blast
  from ensure_dirs_result [of env ?w4] ed have
    r: "r = (if save_dir_ok env \<and> graph_dir_ok env then None else Some OSError)"
    and f: "files w5 = files ?w4" and t: "terminal w5 = terminal ?w4"
    and o: "open_figures w5 = open_figures ?w4"
    by simp_all
  from f have "files w5 = files w"
    by (simp add: say_def)
  moreover from o have "open_figures w5 = Suc (open_figures w)"
    by (simp add: say_def)
  moreover from t have "terminal w5 = terminal w @
         [Gesture_header g,
          Meaning (case map_of GESTURES g of Some m \<Rightarrow> m | None \<Rightarrow> ''N/A''),
          Prompt g, Starting g, Recording_repetition 1] @ console s
         @ [Done_recording, Recording_complete]"
    by (simp add: say_def)
  moreover have "record_gesture cfg env g w =
         Some (if save_dir_ok env \<and> graph_dir_ok env
               then (fst (save_outputs env g s w5),
                     (snd (save_outputs env g s w5))
                       \<lparr>open_figures := open_figures (snd (save_outputs env g s w5)) - 1\<rparr>)
               else (Some OSError, w5\<lparr>open_figures := open_figures w5 - 1\<rparr>))"
    using assms ed r by (simp add: record_gesture_def Let_def split_beta)
  ultimately show ?thesis by blast
qed

lemma save_outputs_files:
  assumes "rows s \<noteq> []" and "timestamps s \<noteq> []"
  shows "fst (save_outputs env g s w) = (if csv_ok env \<and> png_ok env then None else Some OSError)"
    and "files (snd (save_outputs env g s w)) =
       (if csv_ok env
        then (if png_ok env
              then [(path_join GRAPH_DIR (g @ ''.png''), Image (timestamps s) (emg1 s) (emg2 s))]
              else [])
             @ [(path_join SAVE_DIR (g @ ''.csv''), Table csv_columns (rows s))]
        else []) @ files w"
  using assms by (simp_all add: save_outputs_def say_def Let_def)

lemma save_outputs_open_figures:
  "open_figures (snd (save_outputs env g s w)) = open_figures w"
  by (simp add: save_outputs_def say_def Let_def)

lemma save_outputs_empty:
  assumes "rows s = []"
  shows "save_outputs env g s w = (None, say [No_data_captured] w)"
  using assms by (simp add: save_outputs_def)

subsection \<open>Evaluation on concrete sessions\<close>

lemmas eval_defs = loop_body_def read_sample_def update_plot_def warn_def row_of_def
  init_session_def sample_tick_def stop_tick_def scenario_config_def source_config_def
  parse_dual_channel_def to_int_caught_def py_index_def py_int_str_def unsigned_int_def
  int_max_str_digits_def strip_def is_space_def is_digit_def
  digit_val_def rep_idx_of_def py_floordiv_def py_int_of_float_def adc_to_volt_def
  py_truediv_def float_overflow_def total_duration_def Let_def

lemma one_sample_acquire:
  "acquire source_config [sample_tick (1 / 2) ''100,200'', stop_tick 45] init_session
     = Some one_sample_session"
  by (simp add: eval_defs one_sample_session_def)

section \<open>The claims\<close>

subsection \<open>The calibrator and the segmenter\<close>

text \<open>
  C8. For every raw value and reference voltage the calibrator returns
  \<open>(raw / resolution) * vref\<close> when the resolution is positive, and \<open>0.0\<close> instead of
  raising when the resolution is zero or a numeric fault occurs (here: the quotient does
  not fit a double); so \<open>to_volts(0, vref, resolution) = 0\<close>, and
  \<open>to_volts(resolution, vref, resolution) = vref\<close> for a positive resolution.
\<close>

theorem adc_to_volt_contract:
  "(0 < res \<and> \<bar>real_of_int raw / real_of_int res\<bar> < float_overflow
      \<longrightarrow> adc_to_volt raw v res = (real_of_int raw / real_of_int res) * v)
   \<and> adc_to_volt raw v 0 = 0
   \<and> (\<bar>real_of_int raw / real_of_int res\<bar> \<ge> float_overflow \<longrightarrow> adc_to_volt raw v res = 0)
   \<and> adc_to_volt 0 v res = 0
   \<and> (0 < res \<longrightarrow> adc_to_volt res v res = v)"
proof -
  have pos: "1 < float_overflow"
    by (simp add: float_overflow_def)
  have "adc_to_volt raw v res = (real_of_int raw / real_of_int res) * v"
    if h: "0 < res \<and> \<bar>real_of_int raw / real_of_int res\<bar> < float_overflow"
  proof -
    from h have "res \<noteq> 0" by simp
    moreover from h have "\<bar>real_of_int raw / real_of_int res\<bar> < float_overflow"
      by (rule conjunct2)
    then have "\<not> float_overflow \<le> \<bar>real_of_int raw / real_of_int res\<bar>"
      by (simp only: not_le)
    ultimately show ?thesis
      by (simp only: adc_to_volt_def py_truediv_def if_False sum.case)
  qed
  moreover have "adc_to_volt raw v 0 = 0"
    by (simp add: adc_to_volt_def py_truediv_def)
  moreover have "adc_to_volt raw v res = 0"
    if "\<bar>real_of_int raw / real_of_int res\<bar> \<ge> float_overflow"
    using that by (simp add: adc_to_volt_def py_truediv_def)
  moreover have "adc_to_volt 0 v res = 0"
    using pos by (simp add: adc_to_volt_def py_truediv_def)
  moreover have "adc_to_volt res v res = v" if "0 < res"
    using that pos by (simp add: adc_to_volt_def py_truediv_def)
  ultimately show ?thesis by blast
qed

text \<open>C8, at \<open>resolution = 4095\<close> and \<open>vref = 5\<close>, and at a raw value of 310 digits.\<close>

theorem adc_to_volt_contract_witness:
  "(0::int) < 4095 \<and> \<bar>real_of_int 819 / real_of_int 4095\<bar> < float_overflow
   \<and> adc_to_volt 819 5 4095 = 1 \<and> adc_to_volt 7 5 0 = 0
   \<and> \<bar>real_of_int (10 ^ 309) / real_of_int 1\<bar> \<ge> float_overflow
   \<and> adc_to_volt (10 ^ 309) 5 1 = 0
   \<and> adc_to_volt 0 5 4095 = 0 \<and> adc_to_volt 4095 5 4095 = 5"
proof -
  have small: "\<bar>real_of_int 819 / real_of_int 4095\<bar> < float_overflow"
    by (simp add: float_overflow_def)
  have big: "\<bar>real_of_int (10 ^ 309) / real_of_int 1\<bar> \<ge> float_overflow"
    by (simp add: float_overflow_def)
  from adc_to_volt_contract [of 4095 819 5] adc_to_volt_contract [of 1 "10 ^ 309" 5]
    adc_to_volt_contract [of 4095 7 5] small big
  show ?thesis by simp
qed

text \<open>
  C3. For every \<open>elapsed \<ge> 0\<close>, \<open>duration_per_rep > 0\<close> and \<open>repetitions \<ge> 1\<close> the
  repetition index is \<open>floor(elapsed / duration_per_rep) + 1\<close> clamped above at
  \<open>repetitions\<close>; it lies in \<open>[1, repetitions]\<close>, is non-decreasing in \<open>elapsed\<close>, and at
  \<open>elapsed = k * duration_per_rep\<close> for an integer \<open>k\<close> in \<open>[1, repetitions - 1]\<close> it is
  \<open>k + 1\<close>.
\<close>

theorem rep_idx_of_segmenter:
  assumes "0 \<le> t" and "0 < d" and "1 \<le> R"
  shows "rep_idx_of t d R = Inr (min (\<lfloor>t / d\<rfloor> + 1) R)
    \<and> 1 \<le> min (\<lfloor>t / d\<rfloor> + 1) R \<and> min (\<lfloor>t / d\<rfloor> + 1) R \<le> R
    \<and> (\<forall>t'. t \<le> t' \<longrightarrow> rep_idx_of t' d R = Inr (min (\<lfloor>t' / d\<rfloor> + 1) R)
          \<and> min (\<lfloor>t / d\<rfloor> + 1) R \<le> min (\<lfloor>t' / d\<rfloor> + 1) R)
    \<and> (\<forall>k. 1 \<le> k \<and> k \<le> R - 1 \<longrightarrow> rep_idx_of (of_int k * d) d R = Inr (k + 1))"
proof -
  from assms(2) have d: "d \<noteq> 0" by simp
  from assms(1,2) have "0 \<le> t / d" by simp
  then have fl: "0 \<le> \<lfloor>t / d\<rfloor>" by simp
  have mono: "min (\<lfloor>t / d\<rfloor> + 1) R \<le> min (\<lfloor>t' / d\<rfloor> + 1) R" if "t \<le> t'" for t'
  proof -
    from that assms(2) have "t / d \<le> t' / d" by (simp add: divide_right_mono)
    then have "\<lfloor>t / d\<rfloor> \<le> \<lfloor>t' / d\<rfloor>" by (rule floor_mono)
    then show ?thesis by (simp add: min_def)
  qed
  have bound: "rep_idx_of (of_int k * d) d R = Inr (k + 1)" if "1 \<le> k \<and> k \<le> R - 1" for k
    using that d by (simp add: rep_idx_of_eq min_def)
  from d fl assms(3) mono bound show ?thesis
    by (simp add: rep_idx_of_eq)
qed

text \<open>C3, at three seconds per repetition and fifteen repetitions.\<close>

theorem rep_idx_of_segmenter_witness:
  "(0::real) \<le> 7 / 2 \<and> (0::real) < 3 \<and> (1::int) \<le> 15
   \<and> rep_idx_of (7 / 2) 3 15 = Inr 2
   \<and> rep_idx_of 100 3 15 = Inr 15
   \<and> rep_idx_of (of_int 4 * 3) 3 15 = Inr 5"
proof -
  have h: "(0::real) \<le> 7 / 2" "(0::real) < 3" "(1::int) \<le> 15" by simp_all
  from rep_idx_of_segmenter [OF h] have
    a: "rep_idx_of (7 / 2) 3 15 = Inr (min (\<lfloor>(7 / 2) / (3::real)\<rfloor> + 1) 15)"
    and b: "rep_idx_of 100 3 15 = Inr (min (\<lfloor>100 / (3::real)\<rfloor> + 1) 15)"
    and c: "rep_idx_of (of_int 4 * 3) 3 15 = Inr (4 + 1)"
    by simp_all
  have "\<lfloor>(7 / 2) / (3::real)\<rfloor> = 1" by (simp add: floor_eq_iff)
  moreover have "\<lfloor>100 / (3::real)\<rfloor> = 33" by simp
  ultimately show ?thesis using a b c by simp
qed

subsection \<open>The parser\<close>

text \<open>
  C4 as stated fails on a digit run longer than the interpreter's limit: the line of
  4301 ones, a comma and a five has two maximal digit runs, and the parser returns the
  failure sentinel.
\<close>

theorem parse_dual_channel_long_run_rejected:
  "findall_digits (replicate 4301 (CHR ''1'') @ '',5'') = [replicate 4301 (CHR ''1''), ''5'']
   \<and> parse_dual_channel (replicate 4301 (CHR ''1'') @ '',5'') = Inr (None, None)"
proof -
  have "findall_digits ([] @ replicate 4301 (CHR ''1'') @ '','' @ ''5'' @ [])
      = replicate 4301 (CHR ''1'') # ''5'' # findall_digits []"
    by (rule two_runs) (simp_all add: is_digit_def)
  then have runs: "findall_digits (replicate 4301 (CHR ''1'') @ '',5'')
      = [replicate 4301 (CHR ''1''), ''5'']"
    by (simp)
  then show ?thesis
    by (simp add: parse_dual_channel_runs int_max_str_digits_def)
qed

text \<open>
  C4, as amended. For every line whose first two maximal digit runs have at most
  \<open>int_max_str_digits\<close> digits each, the parser returns exactly these two runs, in order
  of appearance, as a pair of integers, whatever stands before, between and after them;
  for every line with fewer than two digit runs (a line without digits, or with one run)
  it returns the failure sentinel.
\<close>

theorem parse_dual_channel_first_two_runs:
  "((\<forall>c\<in>set p. \<not> is_digit c) \<and> a \<noteq> [] \<and> (\<forall>c\<in>set a. is_digit c)
      \<and> m \<noteq> [] \<and> (\<forall>c\<in>set m. \<not> is_digit c) \<and> b \<noteq> [] \<and> (\<forall>c\<in>set b. is_digit c)
      \<and> (rest = [] \<or> \<not> is_digit (hd rest))
      \<and> length a \<le> int_max_str_digits \<and> length b \<le> int_max_str_digits
     \<longrightarrow> parse_dual_channel (p @ a @ m @ b @ rest)
           = Inr (Some (int (decimal a)), Some (int (decimal b))))
   \<and> ((\<forall>c\<in>set p'. \<not> is_digit c) \<and> (\<forall>c\<in>set a'. is_digit c) \<and> (\<forall>c\<in>set q. \<not> is_digit c)
     \<longrightarrow> parse_dual_channel (p' @ a' @ q) = Inr (None, None))"
proof (intro conjI impI)
  assume h: "(\<forall>c\<in>set p. \<not> is_digit c) \<and> a \<noteq> [] \<and> (\<forall>c\<in>set a. is_digit c)
      \<and> m \<noteq> [] \<and> (\<forall>c\<in>set m. \<not> is_digit c) \<and> b \<noteq> [] \<and> (\<forall>c\<in>set b. is_digit c)
      \<and> (rest = [] \<or> \<not> is_digit (hd rest))
      \<and> length a \<le> int_max_str_digits \<and> length b \<le> int_max_str_digits"
  then have "findall_digits (p @ a @ m @ b @ rest) = a # b # findall_digits rest"
    by (intro two_runs) simp_all
  with h show "parse_dual_channel (p @ a @ m @ b @ rest)
           = Inr (Some (int (decimal a)), Some (int (decimal b)))"
    by (simp add: parse_dual_channel_runs)
next
  assume "(\<forall>c\<in>set p'. \<not> is_digit c) \<and> (\<forall>c\<in>set a'. is_digit c) \<and> (\<forall>c\<in>set q. \<not> is_digit c)"
  then have "length (findall_digits (p' @ a' @ q)) \<le> 1"
    by (intro at_most_one_run) simp_all
  then show "parse_dual_channel (p' @ a' @ q) = Inr (None, None)"
    by (cases "findall_digits (p' @ a' @ q)")
      (auto simp: parse_dual_channel_runs split: list.splits)
qed

text \<open>
  C4, as amended, on the layouts of the docstring and on lines without a reading. In
  \<open>EMG1:512 EMG2:478\<close> the first two digit runs are the 1 of the label and 512.
\<close>

theorem parse_dual_channel_first_two_runs_witness:
  "parse_dual_channel ''EMG1:512 EMG2:478'' = Inr (Some 1, Some 512)
   \<and> parse_dual_channel ''512,478'' = Inr (Some 512, Some 478)
   \<and> parse_dual_channel ''abc 7 '' = Inr (None, None)
   \<and> parse_dual_channel ''   '' = Inr (None, None)"
  using parse_dual_channel_first_two_runs
      [of "''EMG''" "''1''" "'':''" "''512''" "'' EMG2:478''" "''abc ''" "''7''" "'' ''"]
    parse_dual_channel_first_two_runs
      [of "''''" "''512''" "'',''" "''478''" "''''" "''   ''" "''''" "''''"]
  by (simp add: is_digit_def decimal_def digit_val_def int_max_str_digits_def)

text \<open>
  C9 as stated fails: a run of digits longer than the interpreter's limit is matched by
  \<open>\d+\<close> and \<open>int\<close> raises ValueError on it, so the \<open>except\<close> branch is taken. Here the
  second run has 5000 digits.
\<close>

theorem int_conversion_branch_reachable:
  "findall_digits (''7 '' @ replicate 5000 (CHR ''9'')) = [''7'', replicate 5000 (CHR ''9'')]
   \<and> py_int_str (replicate 5000 (CHR ''9'')) = Inl ValueError
   \<and> parse_dual_channel (''7 '' @ replicate 5000 (CHR ''9'')) = Inr (None, None)"
proof -
  have "findall_digits ([] @ ''7'' @ '' '' @ replicate 5000 (CHR ''9'') @ [])
      = ''7'' # replicate 5000 (CHR ''9'') # findall_digits []"
    by (rule two_runs) (simp_all add: is_digit_def)
  then have runs: "findall_digits (''7 '' @ replicate 5000 (CHR ''9''))
      = [''7'', replicate 5000 (CHR ''9'')]"
    by (simp)
  have "py_int_str (replicate 5000 (CHR ''9'')) = Inl ValueError"
    by (subst py_int_str_digits)
      (simp_all add: is_digit_def int_max_str_digits_def)
  with runs show ?thesis
    by (simp add: parse_dual_channel_runs int_max_str_digits_def)
qed

text \<open>
  C9, as amended. For every input string parse_dual_channel returns and never raises.
  Every digit run found by \<open>\d+\<close> with at most \<open>int_max_str_digits\<close> digits converts to
  its decimal value, so the ValueError branch is taken only when one of the first two
  runs is longer than that.
\<close>

theorem parse_dual_channel_total:
  "parse_dual_channel line =
      Inr (case findall_digits line of
             a # b # rest \<Rightarrow>
               (if length a \<le> int_max_str_digits \<and> length b \<le> int_max_str_digits
                then (Some (int (decimal a)), Some (int (decimal b)))
                else (None, None))
           | _ \<Rightarrow> (None, None))
   \<and> (\<forall>s\<in>set (findall_digits line).
         length s \<le> int_max_str_digits \<longrightarrow> py_int_str s = Inr (int (decimal s)))"
proof
  show "parse_dual_channel line =
      Inr (case findall_digits line of
             a # b # rest \<Rightarrow>
               (if length a \<le> int_max_str_digits \<and> length b \<le> int_max_str_digits
                then (Some (int (decimal a)), Some (int (decimal b)))
                else (None, None))
           | _ \<Rightarrow> (None, None))"
    by (simp add: parse_dual_channel_runs split: list.splits)
  show "\<forall>s\<in>set (findall_digits line).
         length s \<le> int_max_str_digits \<longrightarrow> py_int_str s = Inr (int (decimal s))"
    by (auto dest!: findall_digits_all_digits simp: py_int_str_digits)
qed

text \<open>C9, as amended, on a line with three digit runs.\<close>

theorem parse_dual_channel_total_witness:
  "parse_dual_channel ''a007b42c9'' = Inr (Some 7, Some 42)
   \<and> py_int_str ''007'' = Inr 7 \<and> py_int_str ''42'' = Inr 42 \<and> py_int_str ''9'' = Inr 9"
  using parse_dual_channel_total [of "''a007b42c9''"]
  by (simp add: is_digit_def decimal_def digit_val_def int_max_str_digits_def)

subsection \<open>The rows of a session\<close>

text \<open>
  C2 as stated fails: for a reading taken \<open>1/1024\<close> s after the start the row holds
  \<open>ms = 0\<close>, and \<open>elapsed * 1000 = 0.9765625\<close> rounds to 1. (Both numbers are exact in
  binary floating point.)
\<close>

theorem elapsed_ms_not_rounded:
  "map ms (rows (loop_body source_config init_session (sample_tick (1 / 1024) ''100,200''))) = [0]
   \<and> round ((1 / 1024) * 1000 :: real) = 1"
  by (simp add: eval_defs round_def)

text \<open>
  C2, as amended. For every sample the \<open>ms\<close> value of its row is
  \<open>int(elapsed_seconds * 1000)\<close>, the product truncated toward zero: its floor for a
  non-negative elapsed time, its ceiling for a negative one.
\<close>

theorem elapsed_ms_truncates:
  "map ms (rows (foldl (loop_body cfg) init_session tks))
     = map (\<lambda>t. if 0 \<le> t then \<lfloor>t * 1000\<rfloor> else \<lceil>t * 1000\<rceil>)
         (timestamps (foldl (loop_body cfg) init_session tks))"
proof -
  have "session_inv cfg (foldl (loop_body cfg) init_session tks)"
    by (intro session_inv_foldl session_inv_init)
  then show ?thesis
    by (simp add: session_inv_def py_int_of_float_def zero_le_mult_iff)
qed

text \<open>C2, as amended, on the three readings of the scenario.\<close>

theorem elapsed_ms_truncates_witness:
  "map ms (rows (foldl (loop_body scenario_config) init_session scenario_ticks)) = [500, 3500, 5900]"
  using elapsed_ms_truncates [of scenario_config scenario_ticks]
  by (simp add: scenario_ticks_def eval_defs)

lemma sample_appends_row:
  "has_sample tk \<Longrightarrow> duration_per_rep cfg \<noteq> 0 \<Longrightarrow>
     length (rows (loop_body cfg s tk)) = Suc (length (rows s))"
  by (auto simp: has_sample_def loop_body_def read_sample_def update_plot_def warn_def Let_def
      rep_idx_of_eq split: serial_event.splits sum.splits option.splits prod.splits)

text \<open>
  C10. After every pass of the acquisition loop the four buffers (timestamps, channel 1,
  channel 2, rows) have equal length: a pass appends one element to each of them or to
  none, and it appends one exactly when its line parses (the repetition length being
  non-zero). When the elapsed times are non-decreasing, so are the \<open>ms\<close> fields and
  (for a positive repetition length) the \<open>rep\<close> fields of the rows.
\<close>

theorem buffers_aligned_and_monotone:
  assumes "s = foldl (loop_body cfg) init_session tks"
  shows "length (timestamps s) = length (rows s)
     \<and> length (emg1 s) = length (rows s)
     \<and> length (emg2 s) = length (rows s)
     \<and> (\<forall>tk. (timestamps (loop_body cfg s tk) = timestamps s \<and> emg1 (loop_body cfg s tk) = emg1 s
               \<and> emg2 (loop_body cfg s tk) = emg2 s \<and> rows (loop_body cfg s tk) = rows s)
            \<or> (\<exists>t c1 c2 r. timestamps (loop_body cfg s tk) = timestamps s @ [t]
               \<and> emg1 (loop_body cfg s tk) = emg1 s @ [c1]
               \<and> emg2 (loop_body cfg s tk) = emg2 s @ [c2]
               \<and> rows (loop_body cfg s tk) = rows s @ [r]))
     \<and> (\<forall>tk. duration_per_rep cfg \<noteq> 0 \<longrightarrow>
           length (rows (loop_body cfg s tk))
             = (if has_sample tk then Suc (length (rows s)) else length (rows s)))
     \<and> (sorted (timestamps s) \<longrightarrow> sorted (map ms (rows s)))
     \<and> (sorted (timestamps s) \<and> 0 < duration_per_rep cfg \<longrightarrow> sorted (map rep (rows s)))"
proof -
  from assms have inv: "session_inv cfg s"
    by (simp add: session_inv_foldl session_inv_init)
  have step: "(timestamps (loop_body cfg s tk) = timestamps s \<and> emg1 (loop_body cfg s tk) = emg1 s
               \<and> emg2 (loop_body cfg s tk) = emg2 s \<and> rows (loop_body cfg s tk) = rows s)
            \<or> (\<exists>t c1 c2 r. timestamps (loop_body cfg s tk) = timestamps s @ [t]
               \<and> emg1 (loop_body cfg s tk) = emg1 s @ [c1]
               \<and> emg2 (loop_body cfg s tk) = emg2 s @ [c2]
               \<and> rows (loop_body cfg s tk) = rows s @ [r])" for tk
    by (cases rule: loop_body_cases [of cfg s tk]) blast+
  have count: "length (rows (loop_body cfg s tk))
             = (if has_sample tk then Suc (length (rows s)) else length (rows s))"
    if "duration_per_rep cfg \<noteq> 0" for tk
    using that by (simp add: sample_appends_row no_sample_rows)
  from inv have "length (timestamps s) = length (rows s)" "length (emg1 s) = length (rows s)"
    "length (emg2 s) = length (rows s)"
    by (simp_all add: session_inv_def)
  moreover have "sorted (timestamps s) \<longrightarrow> sorted (map ms (rows s))"
    using inv by (simp add: sorted_ms)
  moreover have "sorted (timestamps s) \<and> 0 < duration_per_rep cfg \<longrightarrow> sorted (map rep (rows s))"
    using inv by (simp add: sorted_rep)
  ultimately show ?thesis using step count by blast
qed

text \<open>C10, on the three readings of the scenario.\<close>

theorem buffers_aligned_and_monotone_witness:
  "length (timestamps (foldl (loop_body scenario_config) init_session scenario_ticks)) = 3
   \<and> length (emg1 (foldl (loop_body scenario_config) init_session scenario_ticks)) = 3
   \<and> length (emg2 (foldl (loop_body scenario_config) init_session scenario_ticks)) = 3
   \<and> length (rows (foldl (loop_body scenario_config) init_session scenario_ticks)) = 3
   \<and> sorted (timestamps (foldl (loop_body scenario_config) init_session scenario_ticks))
   \<and> 0 < duration_per_rep scenario_config
   \<and> sorted (map ms (rows (foldl (loop_body scenario_config) init_session scenario_ticks)))
   \<and> sorted (map rep (rows (foldl (loop_body scenario_config) init_session scenario_ticks)))"
proof -
  have h: "sorted (timestamps (foldl (loop_body scenario_config) init_session scenario_ticks))
      \<and> 0 < duration_per_rep scenario_config"
    by (simp add: scenario_ticks_def eval_defs)
  have l: "length (rows (foldl (loop_body scenario_config) init_session scenario_ticks)) = 3"
    by (simp add: scenario_ticks_def eval_defs)
  from buffers_aligned_and_monotone [OF refl, of scenario_config scenario_ticks] h l
  show ?thesis by simp
qed

subsection \<open>Repetition announcements\<close>

text \<open>
  C6 as stated fails: with three seconds per repetition and two repetitions, a session
  whose first reading arrives at 3.5 s announces repetition 2 at that first reading,
  which has no previous sample; the two readings carry the indices 2, 2, with no change
  between them, and one announcement was made.
\<close>

theorem notification_at_first_sample:
  "notified (console (loop_body scenario_config init_session (sample_tick (7 / 2) ''100,200''))) = [2]
   \<and> map rep (rows (loop_body scenario_config init_session (sample_tick (7 / 2) ''100,200''))) = [2]
   \<and> notified (console (foldl (loop_body scenario_config) init_session late_ticks)) = [2]
   \<and> map rep (rows (foldl (loop_body scenario_config) init_session late_ticks)) = [2, 2]"
  by (simp add: late_ticks_def eval_defs)

text \<open>
  C6, as amended. The announcements made inside the loop are exactly the repetition
  indices of the samples whose index differs from that of the previous sample, or from 1
  (the repetition announced before the loop) for the first sample, in order. With
  non-decreasing elapsed times and a positive repetition length the announced indices
  increase strictly, so each is announced once. In the scenario (3 s per repetition, 2
  repetitions, readings at 0.5, 3.5 and 5.9 s) the samples carry 1, 2, 2 and the only
  announcement is of 2, at the second sample.
\<close>

theorem notifications_follow_changes:
  "notified (console (foldl (loop_body cfg) init_session tks))
      = changes 1 (map rep (rows (foldl (loop_body cfg) init_session tks)))
   \<and> (sorted (timestamps (foldl (loop_body cfg) init_session tks)) \<and> 0 < duration_per_rep cfg
        \<longrightarrow> sorted_wrt (<) (notified (console (foldl (loop_body cfg) init_session tks))))
   \<and> map rep (rows (foldl (loop_body scenario_config) init_session scenario_ticks)) = [1, 2, 2]
   \<and> notified (console (foldl (loop_body scenario_config) init_session (take 1 scenario_ticks))) = []
   \<and> notified (console (foldl (loop_body scenario_config) init_session (take 2 scenario_ticks))) = [2]
   \<and> notified (console (foldl (loop_body scenario_config) init_session scenario_ticks)) = [2]"
proof -
  let ?s = "foldl (loop_body cfg) init_session tks"
  have inv: "session_inv cfg ?s"
    by (intro session_inv_foldl session_inv_init)
  then have eq: "notified (console ?s) = changes 1 (map rep (rows ?s))"
    by (simp add: session_inv_def)
  have "sorted_wrt (<) (notified (console ?s))"
    if "sorted (timestamps ?s) \<and> 0 < duration_per_rep cfg"
  proof -
    from that inv have "sorted (map rep (rows ?s))" by (simp add: sorted_rep)
    then show ?thesis unfolding eq by (rule changes_sorted)
  qed
  moreover have "map rep (rows (foldl (loop_body scenario_config) init_session scenario_ticks)) = [1, 2, 2]"
    by (simp add: scenario_ticks_def eval_defs)
  moreover have "notified (console (foldl (loop_body scenario_config) init_session (take 1 scenario_ticks))) = []"
    by (simp add: scenario_ticks_def eval_defs)
  moreover have "notified (console (foldl (loop_body scenario_config) init_session (take 2 scenario_ticks))) = [2]"
    by (simp add: scenario_ticks_def eval_defs)
  moreover have "notified (console (foldl (loop_body scenario_config) init_session scenario_ticks)) = [2]"
    by (simp add: scenario_ticks_def eval_defs)
  ultimately show ?thesis using eq by blast
qed

text \<open>C6, as amended, on the session whose first reading arrives at 3.5 s.\<close>

theorem notifications_follow_changes_witness:
  "sorted (timestamps (foldl (loop_body scenario_config) init_session late_ticks))
   \<and> 0 < duration_per_rep scenario_config
   \<and> notified (console (foldl (loop_body scenario_config) init_session late_ticks))
       = changes 1 [2, 2]
   \<and> sorted_wrt (<) (notified (console (foldl (loop_body scenario_config) init_session late_ticks)))"
proof -
  have h: "sorted (timestamps (foldl (loop_body scenario_config) init_session late_ticks))
      \<and> 0 < duration_per_rep scenario_config"
    by (simp add: late_ticks_def eval_defs)
  have r: "map rep (rows (foldl (loop_body scenario_config) init_session late_ticks)) = [2, 2]"
    by (simp add: late_ticks_def eval_defs)
  from notifications_follow_changes [of scenario_config late_ticks] h r show ?thesis
    by simp
qed

subsection \<open>The end of a session and the export\<close>

text \<open>
  C7 as stated fails: a session of five passes without a parsable line ends at the loop
  test at 45 s with an empty row list, but when the \<open>data_raw\<close> directory cannot be
  created, ensure_dirs raises before the test for an empty session: record_gesture ends
  with OSError and the warning is not printed.
\<close>

theorem quiet_session_raises_without_dirs:
  "record_gesture source_config no_dirs_env ''rest'' blank_world =
     Some (Some OSError,
       \<lparr>files = [], dirs = [],
        terminal = [Gesture_header ''rest'', Meaning ''Neutral / no message'', Prompt ''rest'',
          Starting ''rest'', Recording_repetition 1, Read_error SerialException,
          Done_recording, Recording_complete],
        open_figures = 0, port_open = True\<rparr>)
   \<and> map_option rows (acquire source_config (ticks no_dirs_env) init_session) = Some []"
  by (simp add: record_gesture_def GESTURES_def no_dirs_env_def quiet_ticks_def blank_world_def
      ensure_dirs_def makedirs_def eval_defs say_def)

text \<open>
  C7, as amended. A session that receives no parsable line ends at the first loop test
  at which the measured elapsed time has reached \<open>total_duration\<close>, whatever the number
  of samples (the loop has run exactly the passes before that test), and its row list is
  empty. When the output directories exist or can be created it then takes the
  empty-session path: the warning is printed, no file is written, and record_gesture
  returns without raising. When a directory cannot be created, the OSError of ensure_dirs
  leaves record_gesture before the warning; no file is written either.
\<close>

theorem quiet_session_terminates_empty:
  assumes "\<forall>tk\<in>set pre. loop_clock tk < total_duration cfg"
    and "total_duration cfg \<le> loop_clock stop"
    and "ticks env = pre @ stop # post"
  shows "acquire cfg (ticks env) init_session = Some (foldl (loop_body cfg) init_session pre)
     \<and> ((\<forall>tk\<in>set pre. \<not> has_sample tk) \<longrightarrow>
          rows (foldl (loop_body cfg) init_session pre) = []
          \<and> (\<exists>w'. record_gesture cfg env g w
                  = Some (if save_dir_ok env \<and> graph_dir_ok env then None else Some OSError, w')
                \<and> files w' = files w
                \<and> last (terminal w')
                  = (if save_dir_ok env \<and> graph_dir_ok env then No_data_captured
                     else Recording_complete)))"
proof -
  let ?s = "foldl (loop_body cfg) init_session pre"
  have acq: "acquire cfg (ticks env) init_session = Some ?s"
    using assms by (simp add: acquire_stops)
  have "rows ?s = [] \<and> (\<exists>w'. record_gesture cfg env g w
                  = Some (if save_dir_ok env \<and> graph_dir_ok env then None else Some OSError, w')
                \<and> files w' = files w
                \<and> last (terminal w')
                  = (if save_dir_ok env \<and> graph_dir_ok env then No_data_captured
                     else Recording_complete))"
    if quiet: "\<forall>tk\<in>set pre. \<not> has_sample tk"
  proof -
    from quiet have empty: "rows ?s = []"
      by (simp add: no_samples_rows init_session_def)
    from record_gesture_outcome [OF acq, where g = g and w = w] obtain w5 where
      w5: "files w5 = files w"
      and t5: "terminal w5 = terminal w @
         [Gesture_header g,
          Meaning (case map_of GESTURES g of Some m \<Rightarrow> m | None \<Rightarrow> ''N/A''),
          Prompt g, Starting g, Recording_repetition 1] @ console ?s
         @ [Done_recording, Recording_complete]"
      and rg: "record_gesture cfg env g w =
         Some (if save_dir_ok env \<and> graph_dir_ok env
               then (fst (save_outputs env g ?s w5),
                     (snd (save_outputs env g ?s w5))
                       \<lparr>open_figures := open_figures (snd (save_outputs env g ?s w5)) - 1\<rparr>)
               else (Some OSError, w5\<lparr>open_figures := open_figures w5 - 1\<rparr>))"
      by blast
    define w' where "w' = (if save_dir_ok env \<and> graph_dir_ok env
        then (say [No_data_captured] w5)\<lparr>open_figures := open_figures w5 - 1\<rparr>
        else w5\<lparr>open_figures := open_figures w5 - 1\<rparr>)"
    from rg have "record_gesture cfg env g w
          = Some (if save_dir_ok env \<and> graph_dir_ok env then None else Some OSError, w')"
      by (simp add: save_outputs_empty [OF empty] say_def w'_def)
    moreover from w5 have "files w' = files w"
      by (simp add: say_def w'_def)
    moreover from t5 have "last (terminal w')
         = (if save_dir_ok env \<and> graph_dir_ok env then No_data_captured else Recording_complete)"
      by (simp add: say_def w'_def)
    ultimately show ?thesis using empty by blast
  qed
  with acq show ?thesis by blast
qed

text \<open>
  C7, as amended, on a session of five passes (no data, a line without digits, a blank
  line, a read fault, a line with one number) that ends at the test at 45 s, with
  directories that can be created.
\<close>

theorem quiet_session_terminates_empty_witness:
  "acquire source_config (ticks quiet_env) init_session
      = Some (foldl (loop_body source_config) init_session quiet_ticks)
   \<and> rows (foldl (loop_body source_config) init_session quiet_ticks) = []
   \<and> (\<exists>w'. record_gesture source_config quiet_env ''rest'' blank_world = Some (None, w')
         \<and> files w' = files blank_world \<and> last (terminal w') = No_data_captured)"
proof -
  have h1: "\<forall>tk\<in>set quiet_ticks. loop_clock tk < total_duration source_config"
    by (simp add: quiet_ticks_def eval_defs)
  have h2: "total_duration source_config \<le> loop_clock (stop_tick 45)"
    by (simp add: eval_defs)
  have h3: "ticks quiet_env = quiet_ticks @ stop_tick 45 # []"
    by (simp add: quiet_env_def)
  have h4: "\<forall>tk\<in>set quiet_ticks. \<not> has_sample tk"
    by (simp add: quiet_ticks_def has_sample_def eval_defs)
  have d: "save_dir_ok quiet_env \<and> graph_dir_ok quiet_env"
    by (simp add: quiet_env_def)
  from quiet_session_terminates_empty [OF h1 h2 h3, of "''rest''" blank_world] h4 d
  show ?thesis by simp
qed

text \<open>
  C5. Round trip: when the table of a session is written (the session has rows, the
  directories can be created and the write succeeds), it holds the rows of the session,
  one per sample appended to the buffers and in the order of appending; the raw fields of
  a row are the channel values of its sample, and its volt fields are adc_to_volt applied
  to them with the session's reference voltage and resolution. When a directory cannot be
  created, the file of the gesture is left as it was.
\<close>

theorem written_table_round_trip:
  assumes "acquire cfg (ticks env) init_session = Some s" and "rows s \<noteq> []" and "csv_ok env"
  shows "(\<exists>e w'. record_gesture cfg env g w = Some (e, w')
          \<and> map_of (files w') (path_join SAVE_DIR (g @ ''.csv''))
            = (if save_dir_ok env \<and> graph_dir_ok env then Some (Table csv_columns (rows s))
               else map_of (files w) (path_join SAVE_DIR (g @ ''.csv''))))
     \<and> length (rows s) = length (timestamps s)
     \<and> map adc_ch1 (rows s) = emg1 s
     \<and> map adc_ch2 (rows s) = emg2 s
     \<and> map volt_ch1 (rows s) = map (\<lambda>c. adc_to_volt c (vref cfg) (resolution cfg)) (emg1 s)
     \<and> map volt_ch2 (rows s) = map (\<lambda>c. adc_to_volt c (vref cfg) (resolution cfg)) (emg2 s)"
proof -
  from assms(1) have inv: "session_inv cfg s" by (rule session_inv_acquire)
  with assms(2) have ts: "timestamps s \<noteq> []" by (auto simp: session_inv_def)
  from record_gesture_outcome [OF assms(1), where g = g and w = w] obtain w5 where
    w5: "files w5 = files w"
    and rg: "record_gesture cfg env g w =
         Some (if save_dir_ok env \<and> graph_dir_ok env
               then (fst (save_outputs env g s w5),
                     (snd (save_outputs env g s w5))
                       \<lparr>open_figures := open_figures (snd (save_outputs env g s w5)) - 1\<rparr>)
               else (Some OSError, w5\<lparr>open_figures := open_figures w5 - 1\<rparr>))"
    by blast
  have ne: "path_join GRAPH_DIR (g @ ''.png'') \<noteq> path_join SAVE_DIR (g @ ''.csv'')"
    by (simp add: path_join_def GRAPH_DIR_def SAVE_DIR_def)
  have tab: "map_of (files ((snd (save_outputs env g s w5))
                 \<lparr>open_figures := open_figures (snd (save_outputs env g s w5)) - 1\<rparr>))
          (path_join SAVE_DIR (g @ ''.csv'')) = Some (Table csv_columns (rows s))"
    using save_outputs_files(2) [OF assms(2) ts, of env g w5] assms(3) ne by simp
  have "\<exists>e w'. record_gesture cfg env g w = Some (e, w')
          \<and> map_of (files w') (path_join SAVE_DIR (g @ ''.csv''))
            = (if save_dir_ok env \<and> graph_dir_ok env then Some (Table csv_columns (rows s))
               else map_of (files w) (path_join SAVE_DIR (g @ ''.csv'')))"
  proof (cases "save_dir_ok env \<and> graph_dir_ok env")
    case True
    with rg tab show ?thesis by simp
  next
    case False
    with rg w5 show ?thesis by auto
  qed
  with inv show ?thesis by (simp add: session_inv_def)
qed

text \<open>C5, on a session with one reading, \<open>100,200\<close> at 0.5 s.\<close>

theorem written_table_round_trip_witness:
  "\<exists>e w'. record_gesture source_config (good_env ''rest'') ''rest'' blank_world = Some (e, w')
      \<and> map_of (files w') ''data_raw/rest.csv''
          = Some (Table csv_columns
               [\<lparr>ms = 500, adc_ch1 = 100, volt_ch1 = adc_to_volt 100 (33 / 10) 4095,
                 adc_ch2 = 200, volt_ch2 = adc_to_volt 200 (33 / 10) 4095, rep = 1\<rparr>])"
proof -
  have h1: "acquire source_config (ticks (good_env ''rest'')) init_session
      = Some one_sample_session"
    by (simp only: good_env_def gesture_env.select_convs one_sample_acquire)
  have h2: "rows one_sample_session \<noteq> []"
    by (simp add: one_sample_session_def)
  have h3: "csv_ok (good_env ''rest'')"
    by (simp add: good_env_def)
  have d: "save_dir_ok (good_env ''rest'') \<and> graph_dir_ok (good_env ''rest'')"
    by (simp add: good_env_def)
  from written_table_round_trip [OF h1 h2 h3, of "''rest''" blank_world] d show ?thesis
    by (simp add: one_sample_session_def path_join_def SAVE_DIR_def adc_to_volt_def
        py_truediv_def float_overflow_def)
qed

text \<open>
  C1 as stated fails: in a run where the first gesture records one reading and writing
  its table fails, the chart of that gesture is not saved (no file exists at the end),
  the exception leaves record_gesture and main, and no later gesture is recorded: the
  last messages are those of the first gesture.
\<close>

theorem export_fault_not_contained:
  "main source_config True csv_fault_env =
     Some (Some OSError,
       \<lparr>files = [], dirs = [''graphs'', ''data_raw''],
        terminal = [Connecting, Connected, Gesture_header ''rest'',
          Meaning ''Neutral / no message'', Prompt ''rest'', Starting ''rest'',
          Recording_repetition 1, Done_recording, Recording_complete],
        open_figures = 0, port_open = False\<rparr>)
   \<and> map_option rows (acquire source_config (ticks (csv_fault_env ''rest'')) init_session)
       = Some [\<lparr>ms = 500, adc_ch1 = 100, volt_ch1 = 22 / 273, adc_ch2 = 200,
              volt_ch2 = 44 / 273, rep = 1\<rparr>]"
  by (simp add: main_def GESTURES_def record_gesture_def csv_fault_env_def eval_defs
      ensure_dirs_def makedirs_def SAVE_DIR_def GRAPH_DIR_def save_outputs_def say_def)

text \<open>
  C1, as amended. For a session whose buffer is non-empty the table is written first and
  the chart second. When both writes succeed, both files exist and the run goes on to the
  next gesture. When the table cannot be written, neither file is written; when only the
  chart cannot be saved, the table stays written. In both fault cases the exception
  leaves record_gesture (after the figure is closed) and the run over the gestures stops
  there with that exception: no later gesture is recorded. The same holds when an output
  directory cannot be created: then neither file is written.
\<close>

theorem export_fault_aborts_run:
  assumes "acquire cfg (ticks (envs g)) init_session = Some s" and "rows s \<noteq> []"
  shows "\<exists>w'. record_gesture cfg (envs g) g w
        = Some (if save_dir_ok (envs g) \<and> graph_dir_ok (envs g)
                   \<and> csv_ok (envs g) \<and> png_ok (envs g) then None else Some OSError, w')
     \<and> files w' =
         (if save_dir_ok (envs g) \<and> graph_dir_ok (envs g) \<and> csv_ok (envs g)
          then (if png_ok (envs g)
                then [(path_join GRAPH_DIR (g @ ''.png''), Image (timestamps s) (emg1 s) (emg2 s))]
                else [])
               @ [(path_join SAVE_DIR (g @ ''.csv''), Table csv_columns (rows s))]
          else []) @ files w
     \<and> open_figures w' = open_figures w
     \<and> run_gestures cfg envs (g # rest) w
        = (if save_dir_ok (envs g) \<and> graph_dir_ok (envs g)
              \<and> csv_ok (envs g) \<and> png_ok (envs g) then run_gestures cfg envs rest w'
           else Some (Some OSError, w'))"
proof -
  from assms(1) have "session_inv cfg s" by (rule session_inv_acquire)
  with assms(2) have ts: "timestamps s \<noteq> []" by (auto simp: session_inv_def)
  from record_gesture_outcome [OF assms(1), where g = g and w = w] obtain w5 where
    w5: "files w5 = files w"
    and o5: "open_figures w5 = Suc (open_figures w)"
    and rg: "record_gesture cfg (envs g) g w =
         Some (if save_dir_ok (envs g) \<and> graph_dir_ok (envs g)
               then (fst (save_outputs (envs g) g s w5),
                     (snd (save_outputs (envs g) g s w5))
                       \<lparr>open_figures := open_figures (snd (save_outputs (envs g) g s w5)) - 1\<rparr>)
               else (Some OSError, w5\<lparr>open_figures := open_figures w5 - 1\<rparr>))"
    by blast
  define w' where "w' = (if save_dir_ok (envs g) \<and> graph_dir_ok (envs g)
       then (snd (save_outputs (envs g) g s w5))
                 \<lparr>open_figures := open_figures (snd (save_outputs (envs g) g s w5)) - 1\<rparr>
       else w5\<lparr>open_figures := open_figures w5 - 1\<rparr>)"
  have r: "record_gesture cfg (envs g) g w
      = Some (if save_dir_ok (envs g) \<and> graph_dir_ok (envs g)
                   \<and> csv_ok (envs g) \<and> png_ok (envs g) then None else Some OSError, w')"
    using rg save_outputs_files(1) [OF assms(2) ts, of "envs g" g w5] by (simp add: w'_def)
  have f: "files w' =
         (if save_dir_ok (envs g) \<and> graph_dir_ok (envs g) \<and> csv_ok (envs g)
          then (if png_ok (envs g)
                then [(path_join GRAPH_DIR (g @ ''.png''), Image (timestamps s) (emg1 s) (emg2 s))]
                else [])
               @ [(path_join SAVE_DIR (g @ ''.csv''), Table csv_columns (rows s))]
          else []) @ files w"
    using save_outputs_files(2) [OF assms(2) ts, of "envs g" g w5] w5 by (simp add: w'_def)
  have o: "open_figures w' = open_figures w"
    using o5 by (simp add: w'_def save_outputs_open_figures)
  have "run_gestures cfg envs (g # rest) w
        = (if save_dir_ok (envs g) \<and> graph_dir_ok (envs g)
              \<and> csv_ok (envs g) \<and> png_ok (envs g) then run_gestures cfg envs rest w'
           else Some (Some OSError, w'))"
    by (simp add: r)
  with r f o show ?thesis by blast
qed

text \<open>
  C1, as amended, on a run over two gestures in which the chart of the first cannot be
  saved: the run stops with the exception, and only the table of the first gesture
  exists.
\<close>

theorem export_fault_aborts_run_witness:
  "\<exists>w'. run_gestures source_config png_fault_env [''rest'', ''fist''] blank_world
        = Some (Some OSError, w')
     \<and> files w' = [(''data_raw/rest.csv'', Table csv_columns (rows one_sample_session))]"
proof -
  have h1: "acquire source_config (ticks (png_fault_env ''rest'')) init_session
      = Some one_sample_session"
    by (simp only: png_fault_env_def gesture_env.select_convs one_sample_acquire)
  have h2: "rows one_sample_session \<noteq> []"
    by (simp add: one_sample_session_def)
  have c: "save_dir_ok (png_fault_env ''rest'')" "graph_dir_ok (png_fault_env ''rest'')"
    "csv_ok (png_fault_env ''rest'')" "\<not> png_ok (png_fault_env ''rest'')"
    by (simp_all add: png_fault_env_def)
  from export_fault_aborts_run [where envs = png_fault_env and g = "''rest''"
      and cfg = source_config and s = one_sample_session and rest = "[''fist'']"
      and w = blank_world, OF h1 h2] c
  obtain w' where
    "run_gestures source_config png_fault_env [''rest'', ''fist''] blank_world
        = Some (Some OSError, w')"
    "files w' = [(path_join SAVE_DIR (''rest'' @ ''.csv''),
         Table csv_columns (rows one_sample_session))] @ files blank_world"
    by (auto simp del: run_gestures.simps)
  then have "run_gestures source_config png_fault_env [''rest'', ''fist''] blank_world
        = Some (Some OSError, w')
     \<and> files w' = [(''data_raw/rest.csv'', Table csv_columns (rows one_sample_session))]"
    by (simp del: run_gestures.simps add: blank_world_def path_join_def SAVE_DIR_def)
  then show ?thesis by blast
qed

end
